theory Spec2Isabelle
  imports Complex_Main "HOL-Library.Multiset" "HOL-Library.Sublist" "HOL-Library.AList"
begin

section \<open>Data model\<close>

text \<open>
  The pipeline of \<^verbatim>\<open>script_2.py\<close> reads documents of the Open Library search API.
  A document is a JSON object; the code reads two of its keys, \<^verbatim>\<open>title\<close> and
  \<^verbatim>\<open>first_publish_year\<close>, both with \<^verbatim>\<open>dict.get\<close> and the default \<^verbatim>\<open>'N/A'\<close>.
  The title is a string wherever it is present (the schema of the API); the code never
  inspects its type. The year is tested with \<^verbatim>\<open>isinstance(_, int)\<close>, so it is kept as an
  arbitrary JSON value. A finite float is carried as the rational it denotes.
\<close>

datatype json =
    JNull
  | JBool bool
  | JInt int
  | JFloat rat
  | JStr string
  | JArr "json list"
  | JObj "(string \<times> json) list"

record raw_record =
  raw_title :: "string option"
  raw_first_publish_year :: "json option"

text \<open>
  An entry is the three-element list \<^verbatim>\<open>[title, first_publish_year, keyword]\<close> that
  \<^verbatim>\<open>parse_book_titles_and_dates\<close> appends and \<^verbatim>\<open>remove_duplicates\<close> and
  \<^verbatim>\<open>count_books_by_period\<close> unpack.
\<close>

type_synonym entry = "string \<times> int \<times> string"

type_synonym period = "int \<times> int"

text \<open>
  \<^verbatim>\<open>isinstance(v, int)\<close> holds for an \<^verbatim>\<open>int\<close> and for a \<^verbatim>\<open>bool\<close>, which is a subclass of
  \<^verbatim>\<open>int\<close> in Python: \<^verbatim>\<open>True\<close> and \<^verbatim>\<open>False\<close> are equal to 1 and 0, hash like them and
  compare like them. \<open>as_int\<close> is \<open>Some\<close> of the integer value exactly when the test holds.
\<close>

fun as_int :: "json \<Rightarrow> int option" where
  "as_int (JInt i) = Some i"
| "as_int (JBool b) = Some (if b then 1 else 0)"
| "as_int _ = None"

section \<open>Constants of the script\<close>

definition KEYWORDS :: "string list" where
  "KEYWORDS =
     [''Machine Learning'', ''Artificial Intelligence'', ''Deep Learning'', ''Neural Networks'',
      ''Natural Language Processing'', ''Computer Vision'', ''Reinforcement Learning'',
      ''Generative Adversarial Networks'', ''Supervised Learning'', ''Data Science'']"

definition TIME_PERIODS :: "period list" where
  "TIME_PERIODS =
     [(2002, 2003), (2004, 2005), (2006, 2007),
      (2008, 2009), (2010, 2011), (2012, 2013), (2014, 2015),
      (2016, 2017), (2018, 2019), (2020, 2021), (2022, 2023)]"

text \<open>The \<^verbatim>\<open>limit\<close> parameter of every request of \<^verbatim>\<open>fetch_books\<close>.\<close>

definition limit :: nat where
  "limit = 1000"

section \<open>Fetching: the pagination loop\<close>

text \<open>
  The HTTP transport is outside the program. What one pass of the loop of \<^verbatim>\<open>fetch_books\<close>
  meets is one of three things.
  \<^item> \<open>RequestException\<close>: \<^verbatim>\<open>get\<close>, \<^verbatim>\<open>raise_for_status\<close> or \<^verbatim>\<open>json\<close> raises a
    \<^verbatim>\<open>requests.RequestException\<close> (no connection, a timeout, an HTTP error status, a body
    that is not JSON with requests 2.27 or later). The loop catches it.
  \<^item> \<open>Uncaught e\<close>: the pass raises an exception \<open>e\<close> of any other class, which the only
    handler, \<^verbatim>\<open>except requests.RequestException\<close>, does not catch: \<^verbatim>\<open>TypeError\<close> from
    \<^verbatim>\<open>'docs' not in data\<close> when the body is the JSON value null or a number, or from
    \<^verbatim>\<open>extend\<close> when \<^verbatim>\<open>docs\<close> is a number; \<^verbatim>\<open>ValueError\<close> from \<^verbatim>\<open>json\<close> on a body that is
    not JSON with requests before 2.27.
  \<^item> \<open>Body\<close>: the decoded body is a JSON object, of which the code reads the key
    \<^verbatim>\<open>docs\<close> only: \<open>Body None\<close> is a body without that key, \<open>Body (Some ds)\<close> a body whose
    \<^verbatim>\<open>docs\<close> is the list \<open>ds\<close> of documents.
\<close>

datatype py_exception = TypeError | ValueError | AttributeError

datatype page_outcome = RequestException | Uncaught py_exception | Body "raw_record list option"

datatype loop_control = Break | Continue | Raise py_exception

text \<open>
  One pass through the body of \<^verbatim>\<open>while True\<close>: what becomes of \<^verbatim>\<open>all_books\<close>, and whether
  the loop breaks, goes on with \<^verbatim>\<open>params['page'] += 1\<close>, or is left by an exception that
  nothing catches.
\<close>

fun page_step :: "page_outcome \<Rightarrow> raw_record list \<Rightarrow> loop_control \<times> raw_record list" where
  "page_step RequestException all_books = (Break, all_books)"
| "page_step (Uncaught e) all_books = (Raise e, all_books)"
| "page_step (Body None) all_books = (Break, all_books)"
| "page_step (Body (Some docs)) all_books =
     (if docs = [] then (Break, all_books)
      else if length docs < limit then (Break, all_books @ docs)
      else (Continue, all_books @ docs))"

text \<open>
  The loop has no bound of its own: against a server that fills every page it never returns.
  \<open>fetch_loop\<close> is \<open>None\<close> then. When it returns, the result is \<open>Inl e\<close> if the call raised
  \<open>e\<close>, and else \<open>Inr\<close> of \<^verbatim>\<open>all_books\<close> and of the pages requested, in order: the network
  round trips of the call.
\<close>

partial_function (option) fetch_loop ::
  "(nat \<Rightarrow> page_outcome) \<Rightarrow> nat \<Rightarrow> raw_record list \<Rightarrow> nat list
     \<Rightarrow> (py_exception + raw_record list \<times> nat list) option"
where
  "fetch_loop get page all_books requested =
     (case page_step (get page) all_books of
        (Break, all_books') \<Rightarrow> Some (Inr (all_books', requested @ [page]))
      | (Continue, all_books') \<Rightarrow> fetch_loop get (page + 1) all_books' (requested @ [page])
      | (Raise e, all_books') \<Rightarrow> Some (Inl e))"

definition fetch_books ::
  "(nat \<Rightarrow> page_outcome) \<Rightarrow> (py_exception + raw_record list \<times> nat list) option" where
  "fetch_books get = fetch_loop get 1 [] []"

section \<open>Parsing\<close>

fun parse_loop :: "raw_record list \<Rightarrow> string \<Rightarrow> entry list \<Rightarrow> entry list" where
  "parse_loop [] keyword parsed_books = parsed_books"
| "parse_loop (book # data) keyword parsed_books =
     (let title = (case raw_title book of None \<Rightarrow> ''N/A'' | Some t \<Rightarrow> t);
          first_publish_year =
            (case raw_first_publish_year book of None \<Rightarrow> JStr ''N/A'' | Some v \<Rightarrow> v)
      in case as_int first_publish_year of
           Some year \<Rightarrow> parse_loop data keyword (parsed_books @ [(title, year, keyword)])
         | None \<Rightarrow> parse_loop data keyword parsed_books)"

definition parse_book_titles_and_dates :: "raw_record list \<Rightarrow> string \<Rightarrow> entry list" where
  "parse_book_titles_and_dates data keyword = parse_loop data keyword []"

section \<open>Deduplication\<close>

fun dedup_loop :: "entry list \<Rightarrow> (string \<times> int) set \<Rightarrow> entry list \<Rightarrow> entry list" where
  "dedup_loop [] seen unique_books = unique_books"
| "dedup_loop (book # books) seen unique_books =
     (case book of (title, year, keyword) \<Rightarrow>
        let identifier = (title, year) in
        if identifier \<notin> seen
        then dedup_loop books (insert identifier seen) (unique_books @ [book])
        else dedup_loop books seen unique_books)"

definition remove_duplicates :: "entry list \<Rightarrow> entry list" where
  "remove_duplicates books = dedup_loop books {} []"

text \<open>The \<^verbatim>\<open>identifier\<close> of an entry in \<^verbatim>\<open>remove_duplicates\<close>: its title and year.\<close>

fun dedup_key :: "entry \<Rightarrow> string \<times> int" where
  "dedup_key (title, year, keyword) = (title, year)"

section \<open>Counting by period\<close>

text \<open>
  \<^verbatim>\<open>period_counts\<close> is a dictionary, which keeps its keys in insertion order: an association
  list with distinct keys. The comprehension stores 0 under every period of the list; a
  period listed twice is one key.
\<close>

type_synonym counts = "(period \<times> nat) list"

fun init_counts :: "period list \<Rightarrow> counts \<Rightarrow> counts" where
  "init_counts [] period_counts = period_counts"
| "init_counts (p # ps) period_counts = init_counts ps (AList.update p 0 period_counts)"

text \<open>
  The inner \<^verbatim>\<open>for start, end in TIME_PERIODS\<close>: the first period of the list whose closed
  interval holds the year is incremented, and \<^verbatim>\<open>break\<close> leaves the loop. The key is one of
  the periods, so \<^verbatim>\<open>+= 1\<close> finds it.
\<close>

fun count_year :: "period list \<Rightarrow> int \<Rightarrow> counts \<Rightarrow> counts" where
  "count_year [] year period_counts = period_counts"
| "count_year ((start, end) # ps) year period_counts =
     (if start \<le> year \<and> year \<le> end
      then AList.map_entry (start, end) (\<lambda>c. c + 1) period_counts
      else count_year ps year period_counts)"

fun count_loop :: "period list \<Rightarrow> entry list \<Rightarrow> counts \<Rightarrow> counts" where
  "count_loop periods [] period_counts = period_counts"
| "count_loop periods (book # parsed_books) period_counts =
     (case book of (title, year, keyword) \<Rightarrow>
        count_loop periods parsed_books (count_year periods year period_counts))"

text \<open>
  \<^verbatim>\<open>count_books_by_period\<close> reads the module constant \<^verbatim>\<open>TIME_PERIODS\<close>; the model takes the
  list of periods as its first argument.
\<close>

definition count_books_by_period :: "period list \<Rightarrow> entry list \<Rightarrow> counts" where
  "count_books_by_period periods parsed_books =
     count_loop periods parsed_books (init_counts periods [])"

section \<open>One keyword, and the whole run\<close>

text \<open>
  \<^verbatim>\<open>process_keyword\<close> has no handler: an exception of \<^verbatim>\<open>fetch_books\<close> leaves it too.
\<close>

definition process_keyword ::
  "(string \<Rightarrow> nat \<Rightarrow> page_outcome) \<Rightarrow> string \<Rightarrow> (py_exception + entry list \<times> nat list) option" where
  "process_keyword get keyword =
     (case fetch_books (get keyword) of
        None \<Rightarrow> None
      | Some (Inl e) \<Rightarrow> Some (Inl e)
      | Some (Inr (books_data, requested)) \<Rightarrow>
          Some (Inr (if books_data \<noteq> []
                     then remove_duplicates (parse_book_titles_and_dates books_data keyword)
                     else [],
                     requested)))"

text \<open>
  \<^verbatim>\<open>main\<close> submits one \<^verbatim>\<open>process_keyword\<close> per keyword to a thread pool. The workers share
  no state, so each future holds what \<open>process_keyword\<close> returns or raises for its keyword.
  The pool is left only when every worker has ended: if one never ends, neither does
  \<^verbatim>\<open>main\<close>. \<^verbatim>\<open>future.result()\<close> raises in \<^verbatim>\<open>main\<close> what the worker raised, and \<^verbatim>\<open>main\<close> has no
  handler, so the first future to complete with an exception ends the run with it.
  \<open>run_workers\<close> takes the keywords in the order in which their futures complete and gives
  that exception, or else the results of the futures, each with its keyword and the pages
  it requested.
\<close>

fun run_workers ::
  "(string \<Rightarrow> nat \<Rightarrow> page_outcome) \<Rightarrow> string list
     \<Rightarrow> (py_exception + (string \<times> entry list \<times> nat list) list) option" where
  "run_workers get [] = Some (Inr [])"
| "run_workers get (keyword # keywords) =
     (case process_keyword get keyword of
        None \<Rightarrow> None
      | Some outcome \<Rightarrow>
          (case run_workers get keywords of
             None \<Rightarrow> None
           | Some later \<Rightarrow>
               Some (case outcome of
                       Inl e \<Rightarrow> Inl e
                     | Inr (result, requested) \<Rightarrow>
                         (case later of
                            Inl e \<Rightarrow> Inl e
                          | Inr futures \<Rightarrow> Inr ((keyword, result, requested) # futures)))))"

text \<open>
  The fan-in loop \<^verbatim>\<open>for future in as_completed(futures)\<close>: every non-empty result extends
  \<^verbatim>\<open>aggregated_data\<close>, in the order in which the futures complete.
\<close>

fun extend_all :: "entry list list \<Rightarrow> entry list \<Rightarrow> entry list" where
  "extend_all [] aggregated_data = aggregated_data"
| "extend_all (result # results) aggregated_data =
     extend_all results (if result \<noteq> [] then aggregated_data @ result else aggregated_data)"

text \<open>
  The aggregation of \<^verbatim>\<open>main\<close>: the fan-in loop over the partial results, in completion
  order, then \<^verbatim>\<open>remove_duplicates\<close> on the whole.
\<close>

definition aggregate :: "entry list list \<Rightarrow> entry list" where
  "aggregate partials = remove_duplicates (extend_all partials [])"

record run_result =
  aggregated_table :: "entry list"
  period_counts_of :: counts
  requests_of :: "(string \<times> nat) list"

text \<open>
  \<open>completed\<close> is the list of keywords in the order in which their futures complete, a
  permutation of the keywords submitted that the scheduling of the threads decides.
  \<^verbatim>\<open>main\<close> reads the module constants \<^verbatim>\<open>KEYWORDS\<close> and \<^verbatim>\<open>TIME_PERIODS\<close>; the model takes
  both as arguments. Saving, printing and plotting are left out. The requests are listed
  keyword by keyword. The result is \<open>None\<close> when \<^verbatim>\<open>main\<close> does not return, \<open>Inl e\<close> when the
  run ends with the exception \<open>e\<close>, and \<open>Inr\<close> of the table, the counts and the requests
  otherwise.
\<close>

definition main ::
  "(string \<Rightarrow> nat \<Rightarrow> page_outcome) \<Rightarrow> period list \<Rightarrow> string list
     \<Rightarrow> (py_exception + run_result) option" where
  "main get periods completed =
     (case run_workers get completed of
        None \<Rightarrow> None
      | Some (Inl e) \<Rightarrow> Some (Inl e)
      | Some (Inr futures) \<Rightarrow>
          (let aggregated_data = aggregate (map (\<lambda>(keyword, result, requested). result) futures);
               period_counts = count_books_by_period periods aggregated_data
           in Some (Inr \<lparr>aggregated_table = aggregated_data,
                         period_counts_of = period_counts,
                         requests_of =
                           concat (map (\<lambda>(keyword, result, requested).
                                          map (Pair keyword) requested) futures)\<rparr>)))"

section \<open>Auxiliary notions for the statements\<close>

text \<open>
  The loop of \<^verbatim>\<open>remove_duplicates\<close> without its accumulator: the entries whose key is
  neither in \<open>seen\<close> nor carried by an earlier entry.
\<close>

fun first_seen :: "(string \<times> int) set \<Rightarrow> entry list \<Rightarrow> entry list" where
  "first_seen seen [] = []"
| "first_seen seen (b # bs) =
     (if dedup_key b \<in> seen then first_seen seen bs
      else b # first_seen (insert (dedup_key b) seen) bs)"

text \<open>
  What one pass of the loop of \<^verbatim>\<open>parse_book_titles_and_dates\<close> makes of one document:
  the entry it appends, or \<open>None\<close> when it appends nothing.
\<close>

definition entry_of :: "string \<Rightarrow> raw_record \<Rightarrow> entry option" where
  "entry_of keyword book =
     (case as_int (case raw_first_publish_year book of None \<Rightarrow> JStr ''N/A'' | Some v \<Rightarrow> v) of
        None \<Rightarrow> None
      | Some year \<Rightarrow>
          Some (case raw_title book of None \<Rightarrow> ''N/A'' | Some t \<Rightarrow> t, year, keyword))"

text \<open>The test \<^verbatim>\<open>start <= year <= end\<close>, and the first period of a list that passes it.\<close>

definition holds_year :: "int \<Rightarrow> period \<Rightarrow> bool" where
  "holds_year year p = (case p of (start, end) \<Rightarrow> start \<le> year \<and> year \<le> end)"

definition first_period :: "period list \<Rightarrow> int \<Rightarrow> period option" where
  "first_period periods year = find (holds_year year) periods"

text \<open>The sum of the values of the dictionary \<^verbatim>\<open>period_counts\<close>.\<close>

definition total_count :: "counts \<Rightarrow> nat" where
  "total_count period_counts = sum_list (map snd period_counts)"

text \<open>
  The configuration that the specification calls valid: at least one keyword, and periods
  that are intervals, listed in ascending order, none overlapping a later one. The code has
  no counterpart of this test.
\<close>

fun valid_partition :: "period list \<Rightarrow> bool" where
  "valid_partition [] = True"
| "valid_partition ((start, end) # ps) =
     (start \<le> end \<and> list_all (\<lambda>(start', end'). end < start') ps \<and> valid_partition ps)"

definition valid_configuration :: "string list \<Rightarrow> period list \<Rightarrow> bool" where
  "valid_configuration keywords periods = (keywords \<noteq> [] \<and> valid_partition periods)"

text \<open>
  What the worker of a keyword returned, for a worker that returned: its entries and the
  pages it requested.
\<close>

definition result_of :: "(string \<Rightarrow> nat \<Rightarrow> page_outcome) \<Rightarrow> string \<Rightarrow> entry list \<times> nat list" where
  "result_of source keyword =
     (case process_keyword source keyword of Some (Inr returned) \<Rightarrow> returned | _ \<Rightarrow> ([], []))"

subsection \<open>Mock sources\<close>

definition mk_book :: "string \<Rightarrow> int \<Rightarrow> raw_record" where
  "mk_book title year = \<lparr>raw_title = Some title, raw_first_publish_year = Some (JInt year)\<rparr>"

text \<open>
  The source of the end-to-end example: keyword A has one document, X of 2005; keyword B
  has two, X of 2005 and Y of 2010; both on page 1.
\<close>

definition example_source :: "string \<Rightarrow> nat \<Rightarrow> page_outcome" where
  "example_source keyword page =
     (if page = 1 \<and> keyword = ''A'' then Body (Some [mk_book ''X'' 2005])
      else if page = 1 \<and> keyword = ''B'' then Body (Some [mk_book ''X'' 2005, mk_book ''Y'' 2010])
      else Body (Some []))"

text \<open>A source whose pages hold 1000, 1000, 400 and then 0 documents.\<close>

definition shrinking_pages :: "nat \<Rightarrow> page_outcome" where
  "shrinking_pages page =
     (if page = 1 \<or> page = 2 then Body (Some (replicate 1000 (mk_book ''X'' 2005)))
      else if page = 3 then Body (Some (replicate 400 (mk_book ''Y'' 2010)))
      else Body (Some []))"



text \<open>A source whose only document, on page 1 of every keyword, has the year "unknown".\<close>

definition unknown_year_source :: "string \<Rightarrow> nat \<Rightarrow> page_outcome" where
  "unknown_year_source keyword page =
     (if page = 1
      then Body (Some [\<lparr>raw_title = Some ''X'', raw_first_publish_year = Some (JStr ''unknown'')\<rparr>])
      else Body (Some []))"

section \<open>Deduplication keeps the first entry of every key\<close>

lemma dedup_loop_first_seen: "dedup_loop books seen acc = acc @ first_seen seen books"
  by (induction books arbitrary: seen acc) (auto split: prod.splits)

lemma remove_duplicates_first_seen: "remove_duplicates books = first_seen {} books"
  by (simp add: remove_duplicates_def dedup_loop_first_seen)

lemma first_seen_keys: "set (map dedup_key (first_seen seen bs)) = set (map dedup_key bs) - seen"
  by (induction bs arbitrary: seen) auto

lemma first_seen_distinct: "distinct (map dedup_key (first_seen seen bs))"
  by (induction bs arbitrary: seen) (auto simp: first_seen_keys simp del: set_map)

lemma first_seen_subseq: "subseq (first_seen seen bs) bs"
  by (induction bs arbitrary: seen) auto

lemma first_seen_find:
  "e \<in> set (first_seen seen bs) \<Longrightarrow> find (\<lambda>x. dedup_key x = dedup_key e) bs = Some e"
proof (induction bs arbitrary: seen)
  case Nil
  then show ?case by simp
next
  case (Cons b bs)
  show ?case
  proof (cases "dedup_key b = dedup_key e")
    case True
    have "e \<notin> set (first_seen (insert (dedup_key b) seen) bs)"
      using first_seen_keys[of "insert (dedup_key b) seen" bs] True by force
    moreover have "dedup_key b \<in> seen \<Longrightarrow> e \<notin> set (first_seen seen bs)"
      using first_seen_keys[of seen bs] True by force
    ultimately show ?thesis using Cons.prems True by (auto split: if_splits)
  next
    case False
    then show ?thesis using Cons by (auto split: if_splits)
  qed
qed

lemma first_seen_fixed:
  "seen \<inter> set (map dedup_key bs) = {} \<Longrightarrow> distinct (map dedup_key bs) \<Longrightarrow> first_seen seen bs = bs"
  by (induction bs arbitrary: seen) auto

lemma remove_duplicates_fixed:
  "distinct (map dedup_key bs) \<Longrightarrow> remove_duplicates bs = bs"
  by (simp add: remove_duplicates_first_seen first_seen_fixed)

lemma remove_duplicates_distinct: "distinct (map dedup_key (remove_duplicates bs))"
  by (simp add: remove_duplicates_first_seen first_seen_distinct del: set_map)


lemma extend_all_concat: "extend_all partials acc = acc @ concat partials"
  by (induction partials arbitrary: acc) auto

text \<open>
  C3. For every list of entries, \<^verbatim>\<open>remove_duplicates\<close> (the global deduplication that
  \<^verbatim>\<open>main\<close> applies to the merged results) returns a list in which no two entries have the
  same title and year; every entry it returns is the first entry of the input with that
  title and year; every key of the input is still there; and the entries come in the
  order of the input (the result is a subsequence of it). The aggregated table is
  \<^verbatim>\<open>remove_duplicates\<close> of the partial results, concatenated in the order of completion.
\<close>

theorem remove_duplicates_first_occurrences:
  "distinct (map dedup_key (remove_duplicates books))
   \<and> (\<forall>e \<in> set (remove_duplicates books).
         find (\<lambda>x. dedup_key x = dedup_key e) books = Some e)
   \<and> set (map dedup_key (remove_duplicates books)) = set (map dedup_key books)
   \<and> subseq (remove_duplicates books) books
   \<and> aggregate partials = remove_duplicates (concat partials)"
  unfolding remove_duplicates_first_seen aggregate_def extend_all_concat
  using first_seen_distinct[of "{}" books] first_seen_find[of _ "{}" books]
    first_seen_keys[of "{}" books] first_seen_subseq[of "{}" books]
  by simp

theorem remove_duplicates_first_occurrences_witness:
  "remove_duplicates
     [(''X'', 2005, ''A''), (''Y'', 2010, ''A''), (''X'', 2005, ''B''), (''X'', 2010, ''B'')]
     = [(''X'', 2005, ''A''), (''Y'', 2010, ''A''), (''X'', 2010, ''B'')]
   \<and> find (\<lambda>x. dedup_key x = dedup_key (''X'', 2005, ''A''))
        [(''X'', 2005, ''A''), (''Y'', 2010, ''A''), (''X'', 2005, ''B''), (''X'', 2010, ''B'')]
      = Some (''X'', 2005, ''A'')"
proof -
  let ?books = "[(''X'', 2005::int, ''A''), (''Y'', 2010, ''A''), (''X'', 2005, ''B''), (''X'', 2010, ''B'')]"
  have r: "remove_duplicates ?books = [(''X'', 2005, ''A''), (''Y'', 2010, ''A''), (''X'', 2010, ''B'')]"
    by (simp add: remove_duplicates_def)
  have "\<forall>e \<in> set (remove_duplicates ?books). find (\<lambda>x. dedup_key x = dedup_key e) ?books = Some e"
    using remove_duplicates_first_occurrences[of ?books] by blast
  then have "find (\<lambda>x. dedup_key x = dedup_key (''X'', 2005, ''A'')) ?books = Some (''X'', 2005, ''A'')"
    unfolding r by simp
  then show ?thesis using r by simp
qed

text \<open>
  C7. Deduplication is idempotent. Feeding the aggregated table back through the
  aggregation, as the single partial result, returns it unchanged; so does
  \<^verbatim>\<open>remove_duplicates\<close> on its own result.
\<close>

theorem aggregate_idempotent:
  "aggregate [aggregate partials] = aggregate partials
   \<and> remove_duplicates (remove_duplicates books) = remove_duplicates books"
  by (simp add: aggregate_def remove_duplicates_fixed remove_duplicates_distinct del: set_map)

section \<open>The loop of \<^verbatim>\<open>fetch_books\<close>\<close>

lemma page_step_continue_iff:
  "fst (page_step outcome all_books) = Continue \<longleftrightarrow>
     (\<exists>docs. outcome = Body (Some docs) \<and> limit \<le> length docs)"
  by (cases "(outcome, all_books)" rule: page_step.cases) (auto simp: limit_def)

lemma fetch_loop_break:
  "page_step (get page) all_books = (Break, books') \<Longrightarrow>
     fetch_loop get page all_books requested = Some (Inr (books', requested @ [page]))"
  by (subst fetch_loop.simps) simp

lemma fetch_loop_raise:
  "page_step (get page) all_books = (Raise e, books') \<Longrightarrow>
     fetch_loop get page all_books requested = Some (Inl e)"
  by (subst fetch_loop.simps) simp

lemma fetch_loop_continue:
  "page_step (get page) all_books = (Continue, books') \<Longrightarrow>
     fetch_loop get page all_books requested =
       fetch_loop get (Suc page) books' (requested @ [page])"
  by (subst fetch_loop.simps) simp

lemma fetch_loop_step:
  "fetch_loop get page all_books requested =
     (case fst (page_step (get page) all_books) of
        Break \<Rightarrow> Some (Inr (snd (page_step (get page) all_books), requested @ [page]))
      | Continue \<Rightarrow>
          fetch_loop get (page + 1) (snd (page_step (get page) all_books)) (requested @ [page])
      | Raise e \<Rightarrow> Some (Inl e))"
proof (cases "page_step (get page) all_books")
  case (Pair c books')
  then show ?thesis
    using fetch_loop_break[of get page all_books books' requested]
      fetch_loop_continue[of get page all_books books' requested]
      fetch_loop_raise[of get page all_books _ books' requested]
    by (cases c) simp_all
qed

lemma page_step_continue_within_limit:
  assumes "\<forall>docs. outcome = Body (Some docs) \<longrightarrow> length docs \<le> limit"
  shows "fst (page_step outcome all_books) = Continue \<longleftrightarrow>
     (\<exists>docs. outcome = Body (Some docs) \<and> length docs = limit)"
  using assms page_step_continue_iff[of outcome all_books] by auto

lemma fetch_loop_full_page:
  "get page = Body (Some docs) \<Longrightarrow> limit \<le> length docs \<Longrightarrow>
     fetch_loop get page all_books requested =
       fetch_loop get (Suc page) (all_books @ docs) (requested @ [page])"
  by (rule fetch_loop_continue) (auto simp: limit_def)

lemma fetch_loop_last_page:
  "get page = Body (Some docs) \<Longrightarrow> docs \<noteq> [] \<Longrightarrow> length docs < limit \<Longrightarrow>
     fetch_loop get page all_books requested = Some (Inr (all_books @ docs, requested @ [page]))"
  by (rule fetch_loop_break) auto

lemma fetch_loop_empty_page:
  "get page = Body (Some []) \<Longrightarrow>
     fetch_loop get page all_books requested = Some (Inr (all_books, requested @ [page]))"
  by (rule fetch_loop_break) auto



lemma fetch_books_single_page:
  "get 1 = Body (Some docs) \<Longrightarrow> docs \<noteq> [] \<Longrightarrow> length docs < limit \<Longrightarrow>
     fetch_books get = Some (Inr (docs, [1]))"
  unfolding fetch_books_def using fetch_loop_last_page[of get 1 docs "[]" "[]"] by simp

lemma fetch_books_three_pages:
  assumes "get 1 = Body (Some d1)" "length d1 = 1000"
    and "get 2 = Body (Some d2)" "length d2 = 1000"
    and "get 3 = Body (Some d3)" "length d3 = 400"
  shows "fetch_books get = Some (Inr (d1 @ d2 @ d3, [1, 2, 3]))"
proof -
  have "fetch_loop get 3 (d1 @ d2) [1, 2] = Some (Inr ((d1 @ d2) @ d3, [1, 2] @ [3]))"
    using assms by (intro fetch_loop_last_page) (auto simp: limit_def)
  moreover have "fetch_loop get 2 d1 [1] = fetch_loop get 3 (d1 @ d2) [1, 2]"
    using fetch_loop_full_page[of get 2 d2 d1 "[1]"] assms
    by (simp add: limit_def numeral_3_eq_3 numeral_2_eq_2)
  moreover have "fetch_loop get 1 [] [] = fetch_loop get 2 d1 [1]"
    using fetch_loop_full_page[of get 1 d1 "[]" "[]"] assms
    by (simp add: limit_def numeral_2_eq_2)
  ultimately show ?thesis
    by (simp add: fetch_books_def)
qed



text \<open>Against a source that fills every page the loop does not return.\<close>

lemma fetch_loop_full_pages_no_result:
  assumes "fetch_loop get page all_books requested = Some y"
    and "\<forall>page. \<exists>docs. get page = Body (Some docs) \<and> limit \<le> length docs"
  shows False
  using assms
proof (induction rule: fetch_loop.raw_induct[rotated 1, consumes 1, case_names step])
  case (step loop get page all_books requested y)
  obtain docs where "get page = Body (Some docs)" "limit \<le> length docs"
    using step.prems by blast
  then have "page_step (get page) all_books = (Continue, all_books @ docs)"
    by (auto simp: limit_def)
  then have "loop get (page + 1) (all_books @ docs) (requested @ [page]) = Some y"
    using step.hyps by simp
  then show ?case using step.IH step.prems by blast
qed

lemma fetch_books_never_returns:
  "\<forall>page. \<exists>docs. get page = Body (Some docs) \<and> limit \<le> length docs \<Longrightarrow> fetch_books get = None"
  using fetch_loop_full_pages_no_result[of get 1 "[]" "[]"]
  by (cases "fetch_books get") (auto simp: fetch_books_def)

text \<open>
  C4. The page size is the \<^verbatim>\<open>limit\<close> = 1000 that every request sends, so a page holds at
  most 1000 documents. For every outcome of a request within that size, the loop goes on
  to the next page iff the request returned exactly 1000 documents; in every other case it
  ends. For a source whose pages hold 1000, 1000, 400 and then 0 documents, \<^verbatim>\<open>fetch_books\<close>
  requests exactly the pages 1, 2 and 3 and returns all 2400 documents, in order.
\<close>

theorem pagination_continues_iff_full:
  "limit = 1000
   \<and> ((\<forall>docs. outcome = Body (Some docs) \<longrightarrow> length docs \<le> limit) \<longrightarrow>
        (fst (page_step outcome all_books) = Continue \<longleftrightarrow>
           (\<exists>docs. outcome = Body (Some docs) \<and> length docs = limit)))
   \<and> fetch_loop get page all_books requested =
       (case fst (page_step (get page) all_books) of
          Break \<Rightarrow> Some (Inr (snd (page_step (get page) all_books), requested @ [page]))
        | Continue \<Rightarrow>
            fetch_loop get (page + 1) (snd (page_step (get page) all_books)) (requested @ [page])
        | Raise e \<Rightarrow> Some (Inl e))
   \<and> (source 1 = Body (Some d1) \<and> length d1 = 1000
        \<and> source 2 = Body (Some d2) \<and> length d2 = 1000
        \<and> source 3 = Body (Some d3) \<and> length d3 = 400
        \<longrightarrow> fetch_books source = Some (Inr (d1 @ d2 @ d3, [1, 2, 3]))
            \<and> length (d1 @ d2 @ d3) = 2400)"
  using page_step_continue_within_limit[of outcome all_books]
    fetch_loop_step[of get page all_books requested]
    fetch_books_three_pages[of source d1 d2 d3]
  by (simp add: limit_def)

theorem pagination_continues_iff_full_witness:
  "fst (page_step (shrinking_pages 1) []) = Continue
   \<and> fst (page_step (shrinking_pages 3) []) = Break
   \<and> shrinking_pages 4 = Body (Some [])
   \<and> fetch_books shrinking_pages =
       Some (Inr (replicate 1000 (mk_book ''X'' 2005) @ replicate 1000 (mk_book ''X'' 2005)
               @ replicate 400 (mk_book ''Y'' 2010), [1, 2, 3]))"
proof -
  have p: "shrinking_pages 1 = Body (Some (replicate 1000 (mk_book ''X'' 2005)))
     \<and> length (replicate 1000 (mk_book ''X'' 2005)) = 1000
     \<and> shrinking_pages 2 = Body (Some (replicate 1000 (mk_book ''X'' 2005)))
     \<and> length (replicate 1000 (mk_book ''X'' 2005)) = 1000
     \<and> shrinking_pages 3 = Body (Some (replicate 400 (mk_book ''Y'' 2010)))
     \<and> length (replicate 400 (mk_book ''Y'' 2010)) = 400"
    by (simp add: shrinking_pages_def)
  have w: "\<forall>docs. shrinking_pages 1 = Body (Some docs) \<longrightarrow> length docs \<le> limit"
    by (simp add: shrinking_pages_def limit_def)
  have e: "\<exists>docs. shrinking_pages 1 = Body (Some docs) \<and> length docs = limit"
    by (simp add: shrinking_pages_def limit_def)
  have 1: "fst (page_step (shrinking_pages 1) []) = Continue
     \<and> fetch_books shrinking_pages =
       Some (Inr (replicate 1000 (mk_book ''X'' 2005) @ replicate 1000 (mk_book ''X'' 2005)
               @ replicate 400 (mk_book ''Y'' 2010), [1, 2, 3]))"
    using p w e
      pagination_continues_iff_full[of "shrinking_pages 1" "[]" shrinking_pages 1 "[]"
        shrinking_pages "replicate 1000 (mk_book ''X'' 2005)" "replicate 1000 (mk_book ''X'' 2005)"
        "replicate 400 (mk_book ''Y'' 2010)"]
    by blast
  have 2: "fst (page_step (shrinking_pages 3) []) = Break \<and> shrinking_pages 4 = Body (Some [])"
    by (simp add: shrinking_pages_def limit_def)
  from 1 2 show ?thesis by blast
qed

section \<open>Parsing, and one keyword\<close>

lemma parse_loop_map_filter:
  "parse_loop data keyword acc = acc @ List.map_filter (entry_of keyword) data"
  by (induction data arbitrary: acc)
     (auto simp: List.map_filter_simps entry_of_def Let_def split: option.splits)

lemma parse_map_filter:
  "parse_book_titles_and_dates data keyword = List.map_filter (entry_of keyword) data"
  by (simp add: parse_book_titles_and_dates_def parse_loop_map_filter)

lemma parse_append:
  "parse_book_titles_and_dates (xs @ ys) keyword =
     parse_book_titles_and_dates xs keyword @ parse_book_titles_and_dates ys keyword"
  by (simp add: parse_map_filter List.map_filter_def)

lemma parse_replicate:
  "parse_book_titles_and_dates (replicate n (mk_book title year)) keyword =
     replicate n (title, year, keyword)"
  by (simp add: parse_map_filter List.map_filter_def entry_of_def mk_book_def)



lemma entry_of_SomeD:
  "entry_of keyword book = Some (title, year, keyword') \<Longrightarrow>
     keyword' = keyword
     \<and> title = (case raw_title book of None \<Rightarrow> ''N/A'' | Some t \<Rightarrow> t)
     \<and> (\<exists>v. raw_first_publish_year book = Some v \<and> as_int v = Some year)"
  by (auto simp: entry_of_def split: option.splits)


lemma run_workers_None:
  "run_workers source ks = None \<longleftrightarrow> (\<exists>k \<in> set ks. process_keyword source k = None)"
  by (induction ks) (auto split: option.splits sum.splits)

lemma run_workers_Inr:
  "run_workers source ks = Some (Inr futures) \<longleftrightarrow>
     (\<forall>k \<in> set ks. \<exists>returned. process_keyword source k = Some (Inr returned))
     \<and> futures = map (\<lambda>k. (k, result_of source k)) ks"
proof (induction ks arbitrary: futures)
  case Nil
  then show ?case by auto
next
  case (Cons k ks)
  show ?case
  proof (cases "process_keyword source k")
    case None
    then show ?thesis by auto
  next
    case (Some outcome)
    show ?thesis
    proof (cases "run_workers source ks")
      case None
      then have "\<exists>k \<in> set ks. process_keyword source k = None"
        by (simp add: run_workers_None)
      then have "\<not> (\<forall>k \<in> set ks. \<exists>returned. process_keyword source k = Some (Inr returned))"
        by fastforce
      then show ?thesis using None Some by auto
    next
      case later: (Some later)
      show ?thesis
      proof (cases outcome)
        case (Inl e)
        then show ?thesis using Some later by auto
      next
        case (Inr returned)
        obtain result requested where r: "returned = (result, requested)" by (cases returned) auto
        show ?thesis
        proof (cases later)
          case (Inl e)
          then have "\<not> (\<forall>k \<in> set ks. \<exists>returned. process_keyword source k = Some (Inr returned))"
            using Cons.IH later by auto
          then show ?thesis using Some later Inr Inl r by auto
        next
          case fs: (Inr fs)
          then have "(\<forall>k \<in> set ks. \<exists>returned. process_keyword source k = Some (Inr returned))
              \<and> fs = map (\<lambda>k. (k, result_of source k)) ks"
            using Cons.IH later by auto
          then show ?thesis using Some later Inr fs r by (auto simp: result_of_def)
        qed
      qed
    qed
  qed
qed

lemma main_Inr:
  "main source periods completed = Some (Inr r) \<longleftrightarrow>
     (\<forall>k \<in> set completed. \<exists>returned. process_keyword source k = Some (Inr returned))
     \<and> r = \<lparr>aggregated_table = aggregate (map (\<lambda>k. fst (result_of source k)) completed),
            period_counts_of =
              count_books_by_period periods
                (aggregate (map (\<lambda>k. fst (result_of source k)) completed)),
            requests_of =
              concat (map (\<lambda>k. map (Pair k) (snd (result_of source k))) completed)\<rparr>"
proof -
  have "main source periods completed = Some (Inr r) \<longleftrightarrow>
      (\<exists>futures. run_workers source completed = Some (Inr futures)
         \<and> r = \<lparr>aggregated_table = aggregate (map (\<lambda>(keyword, result, requested). result) futures),
            period_counts_of =
              count_books_by_period periods
                (aggregate (map (\<lambda>(keyword, result, requested). result) futures)),
            requests_of =
              concat (map (\<lambda>(keyword, result, requested). map (Pair keyword) requested) futures)\<rparr>)"
    by (auto simp: main_def Let_def split: option.splits sum.splits)
  then show ?thesis
    unfolding run_workers_Inr by (auto simp: o_def split_beta)
qed








text \<open>
  C10. Every entry that \<^verbatim>\<open>parse_book_titles_and_dates\<close> returns carries the keyword of the
  call, the title of one of the documents (or \<^verbatim>\<open>'N/A'\<close> where the document has none) and
  the integer that is the \<^verbatim>\<open>first_publish_year\<close> of that document. The entries are those
  of the documents that have such a year, one for each and in the order of the input,
  and these documents are a subsequence of the input.
\<close>

theorem parse_entries:
  "(\<forall>(title, year, keyword') \<in> set (parse_book_titles_and_dates data keyword).
      keyword' = keyword
      \<and> (\<exists>book \<in> set data.
            title = (case raw_title book of None \<Rightarrow> ''N/A'' | Some t \<Rightarrow> t)
            \<and> (\<exists>v. raw_first_publish_year book = Some v \<and> as_int v = Some year)))
   \<and> subseq (filter (\<lambda>book. entry_of keyword book \<noteq> None) data) data
   \<and> map Some (parse_book_titles_and_dates data keyword) =
       map (entry_of keyword) (filter (\<lambda>book. entry_of keyword book \<noteq> None) data)"
proof (intro conjI)
  show "\<forall>(title, year, keyword') \<in> set (parse_book_titles_and_dates data keyword).
      keyword' = keyword
      \<and> (\<exists>book \<in> set data.
            title = (case raw_title book of None \<Rightarrow> ''N/A'' | Some t \<Rightarrow> t)
            \<and> (\<exists>v. raw_first_publish_year book = Some v \<and> as_int v = Some year))"
    unfolding parse_map_filter List.map_filter_def
    using entry_of_SomeD by fastforce
  show "subseq (filter (\<lambda>book. entry_of keyword book \<noteq> None) data) data"
    by simp
  show "map Some (parse_book_titles_and_dates data keyword) =
       map (entry_of keyword) (filter (\<lambda>book. entry_of keyword book \<noteq> None) data)"
    unfolding parse_map_filter List.map_filter_def by (induction data) auto
qed

theorem parse_entries_witness:
  "parse_book_titles_and_dates
     [\<lparr>raw_title = Some ''X'', raw_first_publish_year = Some (JInt 2005)\<rparr>,
      \<lparr>raw_title = None, raw_first_publish_year = Some (JInt 1999)\<rparr>,
      \<lparr>raw_title = Some ''Z'', raw_first_publish_year = Some (JStr ''unknown'')\<rparr>,
      \<lparr>raw_title = Some ''W'', raw_first_publish_year = None\<rparr>,
      \<lparr>raw_title = Some ''V'', raw_first_publish_year = Some (JFloat 2001)\<rparr>,
      \<lparr>raw_title = Some ''Y'', raw_first_publish_year = Some (JInt 2010)\<rparr>] ''A''
    = [(''X'', 2005, ''A''), (''N/A'', 1999, ''A''), (''Y'', 2010, ''A'')]
   \<and> map Some [(''X'', 2005, ''A''), (''N/A'', 1999, ''A''), (''Y'', 2010, ''A'')] =
       map (entry_of ''A'')
         [\<lparr>raw_title = Some ''X'', raw_first_publish_year = Some (JInt 2005)\<rparr>,
          \<lparr>raw_title = None, raw_first_publish_year = Some (JInt 1999)\<rparr>,
          \<lparr>raw_title = Some ''Y'', raw_first_publish_year = Some (JInt 2010)\<rparr>]"
proof -
  let ?data = "[\<lparr>raw_title = Some ''X'', raw_first_publish_year = Some (JInt 2005)\<rparr>,
      \<lparr>raw_title = None, raw_first_publish_year = Some (JInt 1999)\<rparr>,
      \<lparr>raw_title = Some ''Z'', raw_first_publish_year = Some (JStr ''unknown'')\<rparr>,
      \<lparr>raw_title = Some ''W'', raw_first_publish_year = None\<rparr>,
      \<lparr>raw_title = Some ''V'', raw_first_publish_year = Some (JFloat 2001)\<rparr>,
      \<lparr>raw_title = Some ''Y'', raw_first_publish_year = Some (JInt 2010)\<rparr>]"
  have v: "parse_book_titles_and_dates ?data ''A'' =
      [(''X'', 2005, ''A''), (''N/A'', 1999, ''A''), (''Y'', 2010, ''A'')]"
    by (simp add: parse_book_titles_and_dates_def)
  have f: "filter (\<lambda>book. entry_of ''A'' book \<noteq> None) ?data =
      [\<lparr>raw_title = Some ''X'', raw_first_publish_year = Some (JInt 2005)\<rparr>,
       \<lparr>raw_title = None, raw_first_publish_year = Some (JInt 1999)\<rparr>,
       \<lparr>raw_title = Some ''Y'', raw_first_publish_year = Some (JInt 2010)\<rparr>]"
    by (simp add: entry_of_def)
  have "map Some (parse_book_titles_and_dates ?data ''A'') =
       map (entry_of ''A'') (filter (\<lambda>book. entry_of ''A'' book \<noteq> None) ?data)"
    using parse_entries[of ?data "''A''"] by blast
  then show ?thesis unfolding v f using v by simp
qed

section \<open>Where the entries of the table come from\<close>

lemma page_step_books:
  "page_step outcome all_books = (c, books') \<Longrightarrow>
     set books' \<subseteq> set all_books \<union> {b. \<exists>docs. outcome = Body (Some docs) \<and> b \<in> set docs}"
  by (cases "(outcome, all_books)" rule: page_step.cases) (auto split: if_splits)

lemma fetch_loop_books:
  "fetch_loop get page all_books requested = Some y \<Longrightarrow>
     (case y of
        Inl e \<Rightarrow> True
      | Inr returned \<Rightarrow>
          set (fst returned)
            \<subseteq> set all_books \<union> {b. \<exists>p docs. get p = Body (Some docs) \<and> b \<in> set docs})"
proof (induction rule: fetch_loop.raw_induct[rotated 1, consumes 1, case_names step])
  case (step loop get page all_books requested y)
  obtain c books' where ps: "page_step (get page) all_books = (c, books')"
    by (cases "page_step (get page) all_books") auto
  have sub: "set books' \<subseteq> set all_books \<union> {b. \<exists>p docs. get p = Body (Some docs) \<and> b \<in> set docs}"
    using page_step_books[OF ps] by blast
  show ?case
  proof (cases c)
    case Break
    then show ?thesis using step.hyps ps sub by auto
  next
    case Continue
    then have a: "loop get (page + 1) books' (requested @ [page]) = Some y"
      using step.hyps ps by simp
    show ?thesis using step.IH[OF a] sub by (auto split: sum.splits)
  next
    case (Raise e)
    then show ?thesis using step.hyps ps by auto
  qed
qed

lemma set_first_seen: "set (first_seen seen bs) \<subseteq> set bs"
  by (induction bs arbitrary: seen) auto

lemma set_remove_duplicates: "set (remove_duplicates bs) \<subseteq> set bs"
  by (simp add: remove_duplicates_first_seen set_first_seen)

lemma set_parse:
  "set (parse_book_titles_and_dates data keyword) =
     {e. \<exists>book \<in> set data. entry_of keyword book = Some e}"
  by (auto simp: parse_map_filter List.map_filter_def) force

lemma process_keyword_sources:
  assumes "process_keyword source keyword = Some (Inr (result, requested))" "e \<in> set result"
  shows "\<exists>page docs book. source keyword page = Body (Some docs) \<and> book \<in> set docs
           \<and> entry_of keyword book = Some e"
proof -
  obtain books_data where f: "fetch_books (source keyword) = Some (Inr (books_data, requested))"
    and r: "result = (if books_data \<noteq> []
                then remove_duplicates (parse_book_titles_and_dates books_data keyword) else [])"
    using assms(1) by (auto simp: process_keyword_def split: option.splits sum.splits prod.splits)
  have "e \<in> set (remove_duplicates (parse_book_titles_and_dates books_data keyword))"
    using assms(2) r by (auto split: if_splits)
  moreover have "set (remove_duplicates (parse_book_titles_and_dates books_data keyword))
      \<subseteq> set (parse_book_titles_and_dates books_data keyword)"
    by (rule set_remove_duplicates)
  ultimately obtain book where b: "book \<in> set books_data" "entry_of keyword book = Some e"
    by (auto simp: set_parse)
  have "set books_data \<subseteq> {b. \<exists>p docs. source keyword p = Body (Some docs) \<and> b \<in> set docs}"
    using fetch_loop_books[of "source keyword" 1 "[]" "[]" "Inr (books_data, requested)"] f
    by (simp add: fetch_books_def)
  then show ?thesis using b by blast
qed


lemma process_keyword_distinct:
  assumes "process_keyword source keyword = Some (Inr (result, requested))"
  shows "distinct (map dedup_key result)"
  using assms remove_duplicates_distinct
  by (auto simp: process_keyword_def split: option.splits sum.splits prod.splits if_splits)

lemma set_aggregate: "set (aggregate partials) \<subseteq> (\<Union>result \<in> set partials. set result)"
proof -
  have "set (remove_duplicates (concat partials)) \<subseteq> set (concat partials)"
    by (rule set_remove_duplicates)
  then show ?thesis
    by (simp add: aggregate_def extend_all_concat)
qed

lemma main_sources:
  assumes "main source periods completed = Some (Inr r)" "e \<in> set (aggregated_table r)"
  shows "\<exists>keyword \<in> set completed. \<exists>page docs book.
           source keyword page = Body (Some docs) \<and> book \<in> set docs
           \<and> entry_of keyword book = Some e"
proof -
  have ok: "\<forall>k \<in> set completed. \<exists>returned. process_keyword source k = Some (Inr returned)"
    and t: "aggregated_table r = aggregate (map (\<lambda>k. fst (result_of source k)) completed)"
    using assms(1) unfolding main_Inr by auto
  from assms(2) t obtain keyword
    where m: "keyword \<in> set completed" and e: "e \<in> set (fst (result_of source keyword))"
    using set_aggregate[of "map (\<lambda>k. fst (result_of source k)) completed"] by auto
  from ok m obtain returned where p: "process_keyword source keyword = Some (Inr returned)"
    by blast
  then have "process_keyword source keyword =
      Some (Inr (fst (result_of source keyword), snd (result_of source keyword)))"
    by (simp add: result_of_def)
  from process_keyword_sources[OF this e] m show ?thesis by blast
qed

section \<open>Counting by period\<close>

lemma count_year_first_period:
  "count_year ps year d =
     (case first_period ps year of None \<Rightarrow> d | Some p \<Rightarrow> AList.map_entry p (\<lambda>c. c + 1) d)"
  by (induction ps year d rule: count_year.induct) (auto simp: first_period_def holds_year_def)

lemma map_fst_map_entry: "map fst (AList.map_entry k f d) = map fst d"
  by (induction d) auto

lemma map_fst_count_year: "map fst (count_year ps year d) = map fst d"
  by (simp add: count_year_first_period map_fst_map_entry split: option.splits)

lemma map_fst_count_loop: "map fst (count_loop ps books d) = map fst d"
  by (induction books arbitrary: d) (auto simp: map_fst_count_year)

lemma keys_init_counts: "fst ` set (init_counts ps d) = fst ` set d \<union> set ps"
  by (induction ps arbitrary: d) (auto simp: dom_update)

lemma distinct_init_counts: "distinct (map fst d) \<Longrightarrow> distinct (map fst (init_counts ps d))"
  by (induction ps arbitrary: d) (auto simp: distinct_update)

lemma total_update_zero: "total_count (AList.update k 0 d) \<le> total_count d"
  by (induction d) (auto simp: total_count_def)

lemma total_init_counts: "total_count d = 0 \<Longrightarrow> total_count (init_counts ps d) = 0"
proof (induction ps arbitrary: d)
  case Nil then show ?case by simp
next
  case (Cons p ps)
  have "total_count (AList.update p 0 d) = 0" using total_update_zero[of p d] Cons.prems by simp
  then show ?case using Cons.IH by simp
qed

lemma total_map_entry:
  "k \<in> fst ` set d \<Longrightarrow> total_count (AList.map_entry k Suc d) = Suc (total_count d)"
  by (induction d) (auto simp: total_count_def)

lemma first_period_Some: "first_period ps year = Some p \<Longrightarrow> p \<in> set ps \<and> holds_year year p"
  by (auto simp: first_period_def find_Some_iff)

lemma first_period_None: "first_period ps year = None \<longleftrightarrow> (\<forall>p \<in> set ps. \<not> holds_year year p)"
  by (auto simp: first_period_def find_None_iff)

lemma total_count_year:
  "set ps \<subseteq> fst ` set d \<Longrightarrow>
     total_count (count_year ps year d) =
       total_count d + (if \<exists>p \<in> set ps. holds_year year p then 1 else 0)"
proof (cases "first_period ps year")
  case None
  then show ?thesis using first_period_None[of ps year] by (simp add: count_year_first_period)
next
  case (Some p)
  assume sub: "set ps \<subseteq> fst ` set d"
  from Some have p: "p \<in> set ps" "holds_year year p" using first_period_Some by auto
  then have "p \<in> fst ` set d" using sub by auto
  then have "total_count (AList.map_entry p Suc d) = Suc (total_count d)" by (rule total_map_entry)
  then show ?thesis using Some p by (auto simp: count_year_first_period)
qed

lemma total_count_loop:
  "set ps \<subseteq> fst ` set d \<Longrightarrow>
     total_count (count_loop ps books d) =
       total_count d + length (filter (\<lambda>(title, year, keyword). \<exists>p \<in> set ps. holds_year year p) books)"
proof (induction books arbitrary: d)
  case Nil then show ?case by simp
next
  case (Cons b books)
  obtain t y k where b: "b = (t, y, k)" by (cases b) auto
  have "fst ` set (count_year ps y d) = fst ` set d"
    using map_fst_count_year[of ps y d] by (metis set_map)
  then have "set ps \<subseteq> fst ` set (count_year ps y d)" using Cons.prems by simp
  from Cons.IH[OF this] show ?case using Cons.prems by (simp add: b total_count_year)
qed

lemma total_count_books:
  "total_count (count_books_by_period ps books) =
     length (filter (\<lambda>(title, year, keyword). \<exists>p \<in> set ps. holds_year year p) books)"
proof -
  have "total_count (init_counts ps []) = 0" by (rule total_init_counts) (simp add: total_count_def)
  moreover have "set ps \<subseteq> fst ` set (init_counts ps [])" by (simp add: keys_init_counts)
  ultimately show ?thesis unfolding count_books_by_period_def by (simp add: total_count_loop)
qed

lemma map_entry_distinct:
  "distinct (map fst d) \<Longrightarrow>
     AList.map_entry k f d = map (\<lambda>(p, c). (p, if p = k then f c else c)) d"
proof (induction d)
  case Nil
  then show ?case by simp
next
  case (Cons x d)
  obtain p c where x: "x = (p, c)" by (cases x) auto
  show ?case
  proof (cases "p = k")
    case True
    then have "k \<notin> fst ` set d" using Cons.prems x by auto
    then have "map (\<lambda>(p, c). (p, if p = k then f c else c)) d = d"
      by (induction d) auto
    then show ?thesis using True x by simp
  next
    case False
    then show ?thesis using Cons x by simp
  qed
qed

lemma count_year_closed:
  "distinct (map fst d) \<Longrightarrow>
     count_year ps year d = map (\<lambda>(p, c). (p, if first_period ps year = Some p then c + 1 else c)) d"
  by (cases "first_period ps year") (auto simp: count_year_first_period map_entry_distinct)

lemma count_loop_closed:
  "distinct (map fst d) \<Longrightarrow>
     count_loop ps books d =
       map (\<lambda>(p, c). (p, c + length (filter (\<lambda>(title, year, keyword). first_period ps year = Some p) books))) d"
proof (induction books arbitrary: d)
  case Nil then show ?case by simp
next
  case (Cons b books)
  obtain t y k where b: "b = (t, y, k)" by (cases b) auto
  have "distinct (map fst (count_year ps y d))" using Cons.prems by (simp add: map_fst_count_year)
  from Cons.IH[OF this] show ?case using Cons.prems
    by (auto simp: b count_year_closed)
qed

lemma init_counts_zero: "\<forall>c \<in> set (map snd d). c = 0 \<Longrightarrow> \<forall>c \<in> set (map snd (init_counts ps d)). c = 0"
proof (induction ps arbitrary: d)
  case Nil then show ?case by simp
next
  case (Cons p ps)
  have "\<forall>c \<in> set (map snd (AList.update p 0 d)). c = 0"
    using Cons.prems by (induction d) auto
  then show ?case using Cons.IH by simp
qed

lemma count_books_closed:
  "count_books_by_period ps books =
     map (\<lambda>p. (p, length (filter (\<lambda>(title, year, keyword). first_period ps year = Some p) books)))
       (map fst (init_counts ps []))"
proof -
  have z: "\<forall>c \<in> set (map snd (init_counts ps [])). c = 0" by (rule init_counts_zero) simp
  have "distinct (map fst (init_counts ps []))" by (rule distinct_init_counts) simp
  then show ?thesis unfolding count_books_by_period_def using z
    by (auto simp: count_loop_closed)
qed


lemma holds_year_eq: "holds_year year = (\<lambda>(start, end). start \<le> year \<and> year \<le> end)"
  by (auto simp: holds_year_def)

lemma length_filter_eq_length: "length (filter P xs) = length xs \<longleftrightarrow> (\<forall>x \<in> set xs. P x)"
  by (metis filter_True length_filter_less less_irrefl)

lemma map_of_tabulate: "k \<in> set ks \<Longrightarrow> map_of (map (\<lambda>k. (k, f k)) ks) k = Some (f k)"
  by (induction ks) auto

lemma keys_count_books: "map fst (count_books_by_period ps books) = map fst (init_counts ps [])"
  by (simp add: count_books_by_period_def map_fst_count_loop)

text \<open>
  In a valid partition, as \<^verbatim>\<open>TIME_PERIODS\<close> is, a year lies in at most one period, which
  is then the first of the list that holds it.
\<close>

lemma first_period_of_partition:
  "valid_partition ps \<Longrightarrow> p \<in> set ps \<Longrightarrow> holds_year year p \<Longrightarrow> first_period ps year = Some p"
proof (induction ps)
  case Nil
  then show ?case by simp
next
  case (Cons q ps)
  obtain s e where q: "q = (s, e)" by (cases q) auto
  show ?case
  proof (cases "holds_year year q")
    case True
    have "p = q"
    proof (rule ccontr)
      assume "p \<noteq> q"
      then have "p \<in> set ps" using Cons.prems by simp
      moreover have "list_all (\<lambda>(start', end'). e < start') ps" using Cons.prems q by simp
      ultimately have "e < fst p" by (auto simp: list_all_iff)
      then show False using True Cons.prems(3) q by (auto simp: holds_year_def split: prod.splits)
    qed
    then show ?thesis using True by (simp add: first_period_def)
  next
    case False
    then have "p \<in> set ps" using Cons.prems by auto
    then show ?thesis using Cons False q by (simp add: first_period_def)
  qed
qed

lemma valid_TIME_PERIODS: "valid_partition TIME_PERIODS"
  by (simp add: TIME_PERIODS_def)

text \<open>
  C6. The counts of \<^verbatim>\<open>count_books_by_period\<close> add up to at most the number of entries
  (every entry has an integer year), and to exactly that number iff the year of every
  entry lies in some period of the list. The dictionary has one key per period, and the
  count of a period is the number of entries for which it is the first period, in the
  order of the list (ascending in \<^verbatim>\<open>TIME_PERIODS\<close>), whose closed interval holds the year:
  an entry adds one to at most one count.
\<close>

theorem period_counts_total:
  "sum_list (map snd (count_books_by_period periods books)) \<le> length books
   \<and> (sum_list (map snd (count_books_by_period periods books)) = length books \<longleftrightarrow>
        (\<forall>(title, year, keyword) \<in> set books.
           \<exists>(start, end) \<in> set periods. start \<le> year \<and> year \<le> end))
   \<and> distinct (map fst (count_books_by_period periods books))
   \<and> set (map fst (count_books_by_period periods books)) = set periods
   \<and> (\<forall>p \<in> set periods.
        map_of (count_books_by_period periods books) p =
          Some (length (filter (\<lambda>(title, year, keyword).
                  find (\<lambda>(start, end). start \<le> year \<and> year \<le> end) periods = Some p) books)))"
proof -
  let ?covered = "\<lambda>(title :: string, year, keyword :: string). \<exists>p \<in> set periods. holds_year year p"
  have total: "sum_list (map snd (count_books_by_period periods books)) = length (filter ?covered books)"
    using total_count_books[of periods books] by (simp add: total_count_def)
  have cov: "?covered = (\<lambda>(title, year, keyword). \<exists>(start, end) \<in> set periods. start \<le> year \<and> year \<le> end)"
    by (auto simp: holds_year_def fun_eq_iff)
  have 1: "sum_list (map snd (count_books_by_period periods books)) \<le> length books"
    unfolding total by simp
  have 2: "sum_list (map snd (count_books_by_period periods books)) = length books \<longleftrightarrow>
        (\<forall>(title, year, keyword) \<in> set books.
           \<exists>(start, end) \<in> set periods. start \<le> year \<and> year \<le> end)"
    unfolding total length_filter_eq_length cov by auto
  have d: "distinct (map fst (init_counts periods []))"
    by (rule distinct_init_counts) simp
  then have 3: "distinct (map fst (count_books_by_period periods books))"
    by (simp add: keys_count_books)
  have 4: "set (map fst (count_books_by_period periods books)) = set periods"
    using keys_init_counts[of periods "[]"] by (simp add: keys_count_books)
  have 5: "\<forall>p \<in> set periods.
        map_of (count_books_by_period periods books) p =
          Some (length (filter (\<lambda>(title, year, keyword).
                  find (\<lambda>(start, end). start \<le> year \<and> year \<le> end) periods = Some p) books))"
  proof
    fix p assume "p \<in> set periods"
    then have "p \<in> set (map fst (init_counts periods []))"
      using keys_init_counts[of periods "[]"] by simp
    from map_of_tabulate[OF this] show "map_of (count_books_by_period periods books) p =
          Some (length (filter (\<lambda>(title, year, keyword).
                  find (\<lambda>(start, end). start \<le> year \<and> year \<le> end) periods = Some p) books))"
      unfolding count_books_closed first_period_def holds_year_eq .
  qed
  from 1 2 3 4 5 show ?thesis by blast
qed


theorem period_counts_total_witness:
  "count_books_by_period [(2004, 2005), (2006, 2011)]
     [(''X'', 2005, ''A''), (''Y'', 2010, ''B''), (''Z'', 1999, ''A'')]
     = [((2004, 2005), 1), ((2006, 2011), 1)]
   \<and> map_of (count_books_by_period [(2004, 2005), (2006, 2011)]
         [(''X'', 2005, ''A''), (''Y'', 2010, ''B''), (''Z'', 1999, ''A'')]) (2006, 2011) = Some 1
   \<and> sum_list (map snd (count_books_by_period [(2004, 2005), (2006, 2011)]
         [(''X'', 2005, ''A''), (''Y'', 2010, ''B''), (''Z'', 1999, ''A'')]))
       < length [(''X'', 2005, ''A''), (''Y'', 2010, ''B''), (''Z'', 1999 :: int, ''A'')]"
proof -
  let ?ps = "[(2004, 2005), (2006, 2011)] :: period list"
  let ?bs = "[(''X'', 2005, ''A''), (''Y'', 2010, ''B''), (''Z'', 1999, ''A'')] :: entry list"
  note t = period_counts_total[of ?ps ?bs]
  have v: "count_books_by_period ?ps ?bs = [((2004, 2005), 1), ((2006, 2011), 1)]"
    by (simp add: count_books_by_period_def)
  have "map_of (count_books_by_period ?ps ?bs) (2006, 2011) =
      Some (length (filter (\<lambda>(title, year, keyword).
                  find (\<lambda>(start, end). start \<le> year \<and> year \<le> end) ?ps = Some (2006, 2011)) ?bs))"
    using t by simp
  then have m: "map_of (count_books_by_period ?ps ?bs) (2006, 2011) = Some 1"
    by simp
  have "\<not> (\<forall>(title, year, keyword) \<in> set ?bs.
           \<exists>(start, end) \<in> set ?ps. start \<le> year \<and> year \<le> end)"
    by simp
  then have "sum_list (map snd (count_books_by_period ?ps ?bs)) \<noteq> length ?bs"
    using t by blast
  moreover have "sum_list (map snd (count_books_by_period ?ps ?bs)) \<le> length ?bs"
    using t by blast
  ultimately have "sum_list (map snd (count_books_by_period ?ps ?bs)) < length ?bs"
    by linarith
  then show ?thesis using v m by blast
qed

section \<open>Runs on the mock sources\<close>

lemma process_example_A: "process_keyword example_source ''A'' = Some (Inr ([(''X'', 2005, ''A'')], [1]))"
proof -
  have "fetch_books (example_source ''A'') = Some (Inr ([mk_book ''X'' 2005], [1]))"
    by (rule fetch_books_single_page) (simp_all add: example_source_def limit_def)
  then show ?thesis
    by (simp add: process_keyword_def parse_book_titles_and_dates_def remove_duplicates_def mk_book_def)
qed

lemma process_example_B:
  "process_keyword example_source ''B'' = Some (Inr ([(''X'', 2005, ''B''), (''Y'', 2010, ''B'')], [1]))"
proof -
  have "fetch_books (example_source ''B'') = Some (Inr ([mk_book ''X'' 2005, mk_book ''Y'' 2010], [1]))"
    by (rule fetch_books_single_page) (simp_all add: example_source_def limit_def)
  then show ?thesis
    by (simp add: process_keyword_def parse_book_titles_and_dates_def remove_duplicates_def mk_book_def)
qed

lemma main_example_AB:
  "main example_source [(2004, 2005), (2006, 2011)] [''A'', ''B''] =
     Some (Inr \<lparr>aggregated_table = [(''X'', 2005, ''A''), (''Y'', 2010, ''B'')],
           period_counts_of = [((2004, 2005), 1), ((2006, 2011), 1)],
           requests_of = [(''A'', 1), (''B'', 1)]\<rparr>)"
  by (simp add: main_def process_example_A process_example_B aggregate_def remove_duplicates_def
      count_books_by_period_def)

lemma main_example_BA:
  "main example_source [(2004, 2005), (2006, 2011)] [''B'', ''A''] =
     Some (Inr \<lparr>aggregated_table = [(''X'', 2005, ''B''), (''Y'', 2010, ''B'')],
           period_counts_of = [((2004, 2005), 1), ((2006, 2011), 1)],
           requests_of = [(''B'', 1), (''A'', 1)]\<rparr>)"
  by (simp add: main_def process_example_A process_example_B aggregate_def remove_duplicates_def
      count_books_by_period_def)

lemma process_unknown: "process_keyword unknown_year_source ''A'' = Some (Inr ([], [1]))"
proof -
  have "fetch_books (unknown_year_source ''A'') =
      Some (Inr ([\<lparr>raw_title = Some ''X'', raw_first_publish_year = Some (JStr ''unknown'')\<rparr>], [1]))"
    by (rule fetch_books_single_page) (simp_all add: unknown_year_source_def limit_def)
  then show ?thesis
    by (simp add: process_keyword_def parse_book_titles_and_dates_def remove_duplicates_def)
qed

text \<open>
  C1, as stated: a document whose \<^verbatim>\<open>first_publish_year\<close> is missing or not an integer still
  gives an entry, which is kept in the aggregated table. In the code the entry is appended
  only under \<^verbatim>\<open>if isinstance(first_publish_year, int)\<close>: a document with the year
  "unknown" gives no entry, and the table of a run on it is empty.
\<close>

theorem unusable_year_counterexample:
  "as_int (JStr ''unknown'') = None
   \<and> parse_book_titles_and_dates
       [\<lparr>raw_title = Some ''X'', raw_first_publish_year = Some (JStr ''unknown'')\<rparr>] ''A'' = []
   \<and> main unknown_year_source [(2004, 2005), (2006, 2011)] [''A''] =
       Some (Inr \<lparr>aggregated_table = [],
             period_counts_of = [((2004, 2005), 0), ((2006, 2011), 0)],
             requests_of = [(''A'', 1)]\<rparr>)"
  using process_unknown
  by (simp add: parse_book_titles_and_dates_def main_def aggregate_def remove_duplicates_def
      count_books_by_period_def)

text \<open>
  C1, amended. A document whose \<^verbatim>\<open>first_publish_year\<close> is missing or not an integer gives
  no entry: \<^verbatim>\<open>parse_book_titles_and_dates\<close> returns what it returns without that document.
  Every entry of the aggregated table of a run comes from a document, on a page of its
  keyword, whose year is that integer; and the period counts add up to at most the number
  of entries of the table. So such a document is neither in the table nor counted in any
  period.
\<close>

theorem unusable_year_dropped:
  "((case raw_first_publish_year book of None \<Rightarrow> True | Some v \<Rightarrow> as_int v = None) \<longrightarrow>
       parse_book_titles_and_dates [book] keyword = []
     \<and> parse_book_titles_and_dates (before @ book # after) keyword =
         parse_book_titles_and_dates before keyword @ parse_book_titles_and_dates after keyword)
   \<and> (main source periods completed = Some (Inr r) \<longrightarrow>
        (\<forall>(title, year, keyword) \<in> set (aggregated_table r).
           \<exists>page docs d v. source keyword page = Body (Some docs) \<and> d \<in> set docs
             \<and> raw_first_publish_year d = Some v \<and> as_int v = Some year)
        \<and> sum_list (map snd (period_counts_of r)) \<le> length (aggregated_table r))"
proof (intro conjI impI)
  assume a: "case raw_first_publish_year book of None \<Rightarrow> True | Some v \<Rightarrow> as_int v = None"
  then show e: "parse_book_titles_and_dates [book] keyword = []"
    by (auto simp: parse_book_titles_and_dates_def split: option.splits)
  then show "parse_book_titles_and_dates (before @ book # after) keyword =
         parse_book_titles_and_dates before keyword @ parse_book_titles_and_dates after keyword"
    using parse_append[of before "[book] @ after" keyword] parse_append[of "[book]" after keyword]
    by simp
next
  assume m: "main source periods completed = Some (Inr r)"
  show "\<forall>(title, year, keyword) \<in> set (aggregated_table r).
           \<exists>page docs d v. source keyword page = Body (Some docs) \<and> d \<in> set docs
             \<and> raw_first_publish_year d = Some v \<and> as_int v = Some year"
  proof (clarify)
    fix title year keyword
    assume "(title, year, keyword) \<in> set (aggregated_table r)"
    from main_sources[OF m this] obtain k page docs d
      where s: "source k page = Body (Some docs)" "d \<in> set docs"
        and e: "entry_of k d = Some (title, year, keyword)"
      by blast
    from entry_of_SomeD[OF e] s
    show "\<exists>page docs d v. source keyword page = Body (Some docs) \<and> d \<in> set docs
             \<and> raw_first_publish_year d = Some v \<and> as_int v = Some year"
      by blast
  qed
  have "period_counts_of r = count_books_by_period periods (aggregated_table r)"
    using m unfolding main_Inr by simp
  then show "sum_list (map snd (period_counts_of r)) \<le> length (aggregated_table r)"
    using total_count_books[of periods "aggregated_table r"] by (simp add: total_count_def)
qed

theorem unusable_year_dropped_witness:
  "parse_book_titles_and_dates
     [mk_book ''X'' 2005,
      \<lparr>raw_title = Some ''Z'', raw_first_publish_year = Some (JStr ''unknown'')\<rparr>,
      mk_book ''Y'' 2010] ''A''
   = [(''X'', 2005, ''A''), (''Y'', 2010, ''A'')]
   \<and> (\<exists>page docs d v. example_source ''A'' page = Body (Some docs) \<and> d \<in> set docs
             \<and> raw_first_publish_year d = Some v \<and> as_int v = Some 2005)"
proof -
  let ?r = "\<lparr>aggregated_table = [(''X'', 2005, ''A''), (''Y'', 2010, ''B'')],
           period_counts_of = [((2004, 2005), 1), ((2006, 2011), 1)],
           requests_of = [(''A'', 1), (''B'', 1)]\<rparr>"
  note t = unusable_year_dropped[of
      "\<lparr>raw_title = Some ''Z'', raw_first_publish_year = Some (JStr ''unknown'')\<rparr>" "''A''"
      "[mk_book ''X'' 2005]" "[mk_book ''Y'' 2010]"
      example_source "[(2004, 2005), (2006, 2011)]" "[''A'', ''B'']" ?r]
  have "case raw_first_publish_year \<lparr>raw_title = Some ''Z'', raw_first_publish_year = Some (JStr ''unknown'')\<rparr>
        of None \<Rightarrow> True | Some v \<Rightarrow> as_int v = None"
    by simp
  with t have "parse_book_titles_and_dates
     ([mk_book ''X'' 2005] @
      \<lparr>raw_title = Some ''Z'', raw_first_publish_year = Some (JStr ''unknown'')\<rparr> #
      [mk_book ''Y'' 2010]) ''A''
   = parse_book_titles_and_dates [mk_book ''X'' 2005] ''A''
     @ parse_book_titles_and_dates [mk_book ''Y'' 2010] ''A''"
    by blast
  then have 1: "parse_book_titles_and_dates
     [mk_book ''X'' 2005,
      \<lparr>raw_title = Some ''Z'', raw_first_publish_year = Some (JStr ''unknown'')\<rparr>,
      mk_book ''Y'' 2010] ''A''
   = [(''X'', 2005, ''A''), (''Y'', 2010, ''A'')]"
    by (simp add: parse_replicate[of "Suc 0", simplified])
  have "\<forall>(title, year, keyword) \<in> set (aggregated_table ?r).
           \<exists>page docs d v. example_source keyword page = Body (Some docs) \<and> d \<in> set docs
             \<and> raw_first_publish_year d = Some v \<and> as_int v = Some year"
    using t main_example_AB by blast
  then have 2: "\<exists>page docs d v. example_source ''A'' page = Body (Some docs) \<and> d \<in> set docs
             \<and> raw_first_publish_year d = Some v \<and> as_int v = Some 2005"
    by simp
  from 1 2 show ?thesis by blast
qed

text \<open>
  C9. On the source of the end-to-end example, with the periods (2004, 2005) and
  (2006, 2011), the aggregated table has exactly two entries, X of 2005 and Y of 2010, and
  the counts are 1 and 1, whichever of the two keywords completes first. (The keyword
  carried by X is that of the worker that completed first.)
\<close>

theorem end_to_end_example:
  "main example_source [(2004, 2005), (2006, 2011)] [''A'', ''B''] =
     Some (Inr \<lparr>aggregated_table = [(''X'', 2005, ''A''), (''Y'', 2010, ''B'')],
           period_counts_of = [((2004, 2005), 1), ((2006, 2011), 1)],
           requests_of = [(''A'', 1), (''B'', 1)]\<rparr>)
   \<and> main example_source [(2004, 2005), (2006, 2011)] [''B'', ''A''] =
     Some (Inr \<lparr>aggregated_table = [(''X'', 2005, ''B''), (''Y'', 2010, ''B'')],
           period_counts_of = [((2004, 2005), 1), ((2006, 2011), 1)],
           requests_of = [(''B'', 1), (''A'', 1)]\<rparr>)
   \<and> map dedup_key [(''X'', 2005, ''A''), (''Y'', 2010, ''B'')] = [(''X'', 2005), (''Y'', 2010)]
   \<and> map dedup_key [(''X'', 2005, ''B''), (''Y'', 2010, ''B'')] = [(''X'', 2005), (''Y'', 2010)]"
  by (simp add: main_example_AB main_example_BA)

section \<open>The order of completion\<close>














section \<open>The configuration is not checked\<close>

text \<open>The constants of the script are a valid configuration.\<close>

lemma valid_defaults: "valid_configuration KEYWORDS TIME_PERIODS"
  by (simp add: valid_configuration_def KEYWORDS_def TIME_PERIODS_def)

text \<open>
  C8, as stated: under an invalid configuration the run fails before any request. The code
  has no such check. With two overlapping periods the run requests page 1 of keyword A and
  returns its table and counts; without any keyword it returns an empty table.
\<close>

theorem invalid_configuration_counterexample:
  "\<not> valid_configuration [''A''] [(2000, 2010), (2005, 2015)]
   \<and> main example_source [(2000, 2010), (2005, 2015)] [''A''] =
       Some (Inr \<lparr>aggregated_table = [(''X'', 2005, ''A'')],
                  period_counts_of = [((2000, 2010), 1), ((2005, 2015), 0)],
                  requests_of = [(''A'', 1)]\<rparr>)
   \<and> \<not> valid_configuration [] [(2004, 2005), (2006, 2011)]
   \<and> main example_source [(2004, 2005), (2006, 2011)] [] =
       Some (Inr \<lparr>aggregated_table = [],
                  period_counts_of = [((2004, 2005), 0), ((2006, 2011), 0)],
                  requests_of = []\<rparr>)"
  by (simp add: valid_configuration_def main_def process_example_A aggregate_def
      remove_duplicates_def count_books_by_period_def)

text \<open>
  C8, amended. \<^verbatim>\<open>main\<close> checks neither the keywords nor the periods and raises no
  configuration error. Without keywords it makes no request and returns an empty table
  with every count 0. The periods have no part in fetching or aggregation: for any two
  lists of periods, valid or not, the run returns for both or for neither, with the same
  aggregated table and the same requests, and raises for both or for neither, the same
  exception.
\<close>

theorem configuration_not_validated:
  "main source periods [] =
     Some (Inr \<lparr>aggregated_table = [],
                period_counts_of = count_books_by_period periods [],
                requests_of = []\<rparr>)
   \<and> sum_list (map snd (count_books_by_period periods [])) = 0
   \<and> map_option (map_sum id aggregated_table) (main source periods completed) =
       map_option (map_sum id aggregated_table) (main source periods' completed)
   \<and> map_option (map_sum id requests_of) (main source periods completed) =
       map_option (map_sum id requests_of) (main source periods' completed)"
proof -
  have "total_count (count_books_by_period periods []) = 0"
    by (simp add: total_count_books)
  then show ?thesis
    by (simp add: main_def aggregate_def remove_duplicates_def total_count_def Let_def
        split: option.splits sum.splits)
qed

end
